theory Spec2Isabelle
  imports Complex_Main "HOL-Library.Word"
begin

section \<open>The daily-flow page: tasks, focus timer and persistence\<close>

text \<open>
  A shallow embedding of \<^verbatim>\<open>src/app/page.tsx\<close>. The component \<^verbatim>\<open>Home\<close> keeps its
  state in React hooks; here the hooks are the fields of one record and every handler is a
  function from the state before the event to the state after it.

  JavaScript strings are sequences of 16-bit code units, numbers that the page uses as
  task ids and seconds are integers.
\<close>

type_synonym jsstring = "16 word list"

definition js :: "string \<Rightarrow> jsstring" where
  "js s = map (\<lambda>c. word_of_nat (of_char c)) s"

subsection \<open>Tasks\<close>

text \<open>\<^verbatim>\<open>interface Task { id: number; name: string; isRGA: boolean }\<close>\<close>

record Task =
  id_task :: int
  name :: jsstring
  isRGA :: bool

text \<open>
  \<^verbatim>\<open>Array.from({ length: 6 }, (_, i) => ({ id: i + 1, name: "", isRGA: false }))\<close>:
  the callback runs for the indices 0 to 5.
\<close>

definition createDefaultTasks :: "Task list" where
  "createDefaultTasks =
     map (\<lambda>i. \<lparr>id_task = int i + 1, name = [], isRGA = False\<rparr>) [0..<6]"

definition TIMER_SECONDS :: int where
  "TIMER_SECONDS = 25 * 60"

subsection \<open>The component state\<close>

text \<open>
  One field for each \<^verbatim>\<open>useState\<close> hook of \<^verbatim>\<open>Home\<close>, and \<^verbatim>\<open>intervalRef\<close>: the
  handle that \<^verbatim>\<open>setInterval\<close> returned, of which only "is there one" matters.
\<close>

record home_state =
  tasks :: "Task list"
  hydrated :: bool
  activeId :: "int option"
  secondsLeft :: int
  running :: bool
  inputFocused :: bool
  intervalRef :: bool

definition Home_initial :: home_state where
  "Home_initial =
     \<lparr>tasks = createDefaultTasks, hydrated = False, activeId = None,
      secondsLeft = TIMER_SECONDS, running = False, inputFocused = False,
      intervalRef = False\<rparr>"

subsection \<open>The timer\<close>

text \<open>\<^verbatim>\<open>clearTimer\<close>: clears the interval, if there is one, and forgets its handle.\<close>

definition clearTimer :: "home_state \<Rightarrow> home_state" where
  "clearTimer s = (if intervalRef s then s\<lparr>intervalRef := False\<rparr> else s)"

text \<open>
  The callback given to \<^verbatim>\<open>setInterval\<close>. It does not look at \<^verbatim>\<open>running\<close>: it fires
  as long as the interval lives.
\<close>

definition tick :: "home_state \<Rightarrow> home_state" where
  "tick s =
     (if secondsLeft s \<le> 1
      then (clearTimer s)\<lparr>running := False, secondsLeft := 0\<rparr>
      else s\<lparr>secondsLeft := secondsLeft s - 1\<rparr>)"

text \<open>
  The body of the effect with the dependency \<^verbatim>\<open>running\<close>: without \<^verbatim>\<open>running\<close> it
  clears the timer and returns no cleanup; otherwise it registers the interval and returns
  \<^verbatim>\<open>clearTimer\<close> as its cleanup.
\<close>

definition timer_effect :: "home_state \<Rightarrow> home_state" where
  "timer_effect s = (if \<not> running s then clearTimer s else s\<lparr>intervalRef := True\<rparr>)"

text \<open>
  A render after the state \<open>prev\<close>: React runs the effect again only when \<^verbatim>\<open>running\<close>
  has changed, and before that the cleanup that the last run returned, if it returned one.
\<close>

definition rerender :: "home_state \<Rightarrow> home_state \<Rightarrow> home_state" where
  "rerender prev s =
     (if running s = running prev then s
      else timer_effect (if running prev then clearTimer s else s))"

subsection \<open>The handlers\<close>

definition handleTaskClick :: "int \<Rightarrow> home_state \<Rightarrow> home_state" where
  "handleTaskClick i s =
     (if activeId s = Some i
      then s\<lparr>activeId := None, running := False, secondsLeft := TIMER_SECONDS\<rparr>
      else s\<lparr>activeId := Some i, running := False, secondsLeft := TIMER_SECONDS\<rparr>)"

definition handleNameChange :: "int \<Rightarrow> jsstring \<Rightarrow> home_state \<Rightarrow> home_state" where
  "handleNameChange i val s =
     s\<lparr>tasks := map (\<lambda>t. if id_task t = i then t\<lparr>name := val\<rparr> else t) (tasks s)\<rparr>"

definition toggleRGA :: "int \<Rightarrow> home_state \<Rightarrow> home_state" where
  "toggleRGA i s =
     s\<lparr>tasks := map (\<lambda>t. if id_task t = i then t\<lparr>isRGA := \<not> isRGA t\<rparr> else t) (tasks s)\<rparr>"

definition handleStart :: "home_state \<Rightarrow> home_state" where
  "handleStart s = (if secondsLeft s > 0 then s\<lparr>running := True\<rparr> else s)"

definition handlePause :: "home_state \<Rightarrow> home_state" where
  "handlePause s = s\<lparr>running := False\<rparr>"

subsection \<open>Events\<close>

text \<open>
  What can happen to the page, one constructor for each handler and one for the interval
  firing. After every event React renders again.
\<close>

datatype event =
  Click int
  | NameChange int jsstring
  | ToggleRGA int
  | Start
  | Pause
  | Tick

fun handle :: "event \<Rightarrow> home_state \<Rightarrow> home_state" where
  "handle (Click i) s = handleTaskClick i s"
| "handle (NameChange i val) s = handleNameChange i val s"
| "handle (ToggleRGA i) s = toggleRGA i s"
| "handle Start s = handleStart s"
| "handle Pause s = handlePause s"
| "handle Tick s = tick s"

definition dispatch :: "home_state \<Rightarrow> event \<Rightarrow> home_state" where
  "dispatch s e = rerender s (handle e s)"

definition run :: "event list \<Rightarrow> home_state" where
  "run es = foldl dispatch Home_initial es"

section \<open>Persistence\<close>

text \<open>
  \<^verbatim>\<open>loadTasks\<close> and the persist effect go through \<^verbatim>\<open>localStorage\<close>,
  \<^verbatim>\<open>JSON.parse\<close> and \<^verbatim>\<open>JSON.stringify\<close>. These belong to the platform, not to the
  page; they are modelled here after ECMA-262 (the JSON grammar, \<^verbatim>\<open>QuoteJSONString\<close>,
  \<^verbatim>\<open>SerializeJSONObject\<close>, \<^verbatim>\<open>SerializeJSONArray\<close>) as far as the page uses them.
\<close>

subsection \<open>JSON values\<close>

text \<open>
  What \<^verbatim>\<open>JSON.parse\<close> can return. An object keeps its members in the order in which
  their keys first appeared (JavaScript lists keys that are array indices first; the keys
  of a task are none). A number is kept exactly, where JavaScript rounds to the nearest
  double: the two agree on the integers below \<open>2\<^sup>5\<^sup>3\<close>, which covers the ids.

  The record \<open>Task\<close> is the view the page's types give of such a value; \<^verbatim>\<open>loadTasks\<close>
  returns the values themselves, because nothing checks them against the type.
\<close>

datatype jsval =
  JNull
  | JBool bool
  | JNum rat
  | JStr jsstring
  | JArr "jsval list"
  | JObj "(jsstring \<times> jsval) list"

text \<open>The object a \<^verbatim>\<open>Task\<close> is at run time, its keys in the order the page writes them.\<close>

definition Task_object :: "Task \<Rightarrow> jsval" where
  "Task_object t =
     JObj [(js ''id'', JNum (of_int (id_task t))), (js ''name'', JStr (name t)),
           (js ''isRGA'', JBool (isRGA t))]"

datatype exn = SyntaxError | SecurityError

subsection \<open>Reading JSON text: the tokens\<close>

datatype token =
  LBrack | RBrack | LBrace | RBrace | Colon | Comma
  | TStr jsstring
  | TNum rat
  | TLit jsval

definition is_ws :: "16 word \<Rightarrow> bool" where
  "is_ws c = (c = 0x20 \<or> c = 0x09 \<or> c = 0x0A \<or> c = 0x0D)"

definition is_digit :: "16 word \<Rightarrow> bool" where
  "is_digit c = (48 \<le> unat c \<and> unat c \<le> 57)"

definition digit_val :: "16 word \<Rightarrow> nat" where
  "digit_val c = unat c - 48"

definition digits_val :: "jsstring \<Rightarrow> nat" where
  "digits_val ds = foldl (\<lambda>a c. 10 * a + digit_val c) 0 ds"

fun strip_prefix :: "'a list \<Rightarrow> 'a list \<Rightarrow> 'a list option" where
  "strip_prefix [] ys = Some ys"
| "strip_prefix (x # xs) [] = None"
| "strip_prefix (x # xs) (y # ys) = (if x = y then strip_prefix xs ys else None)"

text \<open>Strings: the characters up to the closing quote, escapes resolved.\<close>

definition hex_val :: "16 word \<Rightarrow> nat option" where
  "hex_val c =
     (let u = unat c in
      if 48 \<le> u \<and> u \<le> 57 then Some (u - 48)
      else if 97 \<le> u \<and> u \<le> 102 then Some (u - 87)
      else if 65 \<le> u \<and> u \<le> 70 then Some (u - 55)
      else None)"

definition hex4 :: "16 word \<Rightarrow> 16 word \<Rightarrow> 16 word \<Rightarrow> 16 word \<Rightarrow> 16 word option" where
  "hex4 h1 h2 h3 h4 =
     (case (hex_val h1, hex_val h2, hex_val h3, hex_val h4) of
        (Some a, Some b, Some c, Some d) \<Rightarrow> Some (word_of_nat (((a * 16 + b) * 16 + c) * 16 + d))
      | _ \<Rightarrow> None)"

definition escape_char :: "16 word \<Rightarrow> 16 word option" where
  "escape_char e =
     (if e = 0x22 then Some 0x22
      else if e = 0x5C then Some 0x5C
      else if e = 0x2F then Some 0x2F
      else if e = 0x62 then Some 0x08
      else if e = 0x66 then Some 0x0C
      else if e = 0x6E then Some 0x0A
      else if e = 0x72 then Some 0x0D
      else if e = 0x74 then Some 0x09
      else None)"

fun lex_string :: "jsstring \<Rightarrow> (jsstring \<times> jsstring) option" where
  "lex_string [] = None"
| "lex_string (c # cs) =
     (if c = 0x22 then Some ([], cs)
      else if c = 0x5C then
        (case cs of
           [] \<Rightarrow> None
         | e # cs' \<Rightarrow>
            (if e = 0x75 then
               (case cs' of
                  h1 # h2 # h3 # h4 # r \<Rightarrow>
                    (case hex4 h1 h2 h3 h4 of
                       None \<Rightarrow> None
                     | Some u \<Rightarrow> map_option (\<lambda>(s, rest). (u # s, rest)) (lex_string r))
                | _ \<Rightarrow> None)
             else
               (case escape_char e of
                  None \<Rightarrow> None
                | Some u \<Rightarrow> map_option (\<lambda>(s, rest). (u # s, rest)) (lex_string cs'))))
      else if unat c < 0x20 then None
      else map_option (\<lambda>(s, rest). (c # s, rest)) (lex_string cs))"

text \<open>
  Numbers: \<^verbatim>\<open>-? (0 | [1-9][0-9]*) (. [0-9]+)? ([eE] [+-]? [0-9]+)?\<close>, read as far as
  they reach.
\<close>

definition lex_sign :: "jsstring \<Rightarrow> bool \<times> jsstring" where
  "lex_sign cs = (case cs of [] \<Rightarrow> (False, []) | c # r \<Rightarrow> if c = 0x2D then (True, r) else (False, cs))"

definition lex_int :: "jsstring \<Rightarrow> (jsstring \<times> jsstring) option" where
  "lex_int cs =
     (let ds = takeWhile is_digit cs in
      if ds = [] \<or> (hd ds = 0x30 \<and> tl ds \<noteq> []) then None
      else Some (ds, dropWhile is_digit cs))"

definition lex_frac :: "jsstring \<Rightarrow> (jsstring \<times> jsstring) option" where
  "lex_frac cs =
     (case cs of
        [] \<Rightarrow> Some ([], [])
      | c # r \<Rightarrow>
          if c = 0x2E then
            (let ds = takeWhile is_digit r in
             if ds = [] then None else Some (ds, dropWhile is_digit r))
          else Some ([], cs))"

definition lex_exp_sign :: "jsstring \<Rightarrow> bool \<times> jsstring" where
  "lex_exp_sign cs =
     (case cs of
        [] \<Rightarrow> (False, [])
      | c # r \<Rightarrow> if c = 0x2B then (False, r) else if c = 0x2D then (True, r) else (False, cs))"

definition lex_exp :: "jsstring \<Rightarrow> (int \<times> jsstring) option" where
  "lex_exp cs =
     (case cs of
        [] \<Rightarrow> Some (0, [])
      | c # r \<Rightarrow>
          if c = 0x65 \<or> c = 0x45 then
            (case lex_exp_sign r of
               (neg, r') \<Rightarrow>
                 (let ds = takeWhile is_digit r' in
                  if ds = [] then None
                  else Some (if neg then - int (digits_val ds) else int (digits_val ds),
                             dropWhile is_digit r')))
          else Some (0, cs))"

definition num_value :: "bool \<Rightarrow> jsstring \<Rightarrow> jsstring \<Rightarrow> int \<Rightarrow> rat" where
  "num_value neg ip fp ex =
     (if neg then - 1 else 1)
       * (of_nat (digits_val (ip @ fp)) / 10 ^ length fp)
       * (if 0 \<le> ex then 10 ^ nat ex else 1 / 10 ^ nat (- ex))"

definition lex_number :: "jsstring \<Rightarrow> (rat \<times> jsstring) option" where
  "lex_number cs =
     (case lex_sign cs of
        (neg, cs1) \<Rightarrow>
          (case lex_int cs1 of
             None \<Rightarrow> None
           | Some (ip, cs2) \<Rightarrow>
               (case lex_frac cs2 of
                  None \<Rightarrow> None
                | Some (fp, cs3) \<Rightarrow>
                    (case lex_exp cs3 of
                       None \<Rightarrow> None
                     | Some (ex, cs4) \<Rightarrow> Some (num_value neg ip fp ex, cs4)))))"

text \<open>One token from the front of a text that does not start with white space.\<close>

datatype lexed = EOF | Bad | Tok token jsstring

definition next_token :: "jsstring \<Rightarrow> lexed" where
  "next_token cs =
     (case cs of
        [] \<Rightarrow> EOF
      | c # r \<Rightarrow>
          if c = 0x5B then Tok LBrack r
          else if c = 0x5D then Tok RBrack r
          else if c = 0x7B then Tok LBrace r
          else if c = 0x7D then Tok RBrace r
          else if c = 0x3A then Tok Colon r
          else if c = 0x2C then Tok Comma r
          else if c = 0x22 then
            (case lex_string r of None \<Rightarrow> Bad | Some (s, rest) \<Rightarrow> Tok (TStr s) rest)
          else if c = 0x74 then
            (case strip_prefix (js ''true'') cs of
               None \<Rightarrow> Bad | Some rest \<Rightarrow> Tok (TLit (JBool True)) rest)
          else if c = 0x66 then
            (case strip_prefix (js ''false'') cs of
               None \<Rightarrow> Bad | Some rest \<Rightarrow> Tok (TLit (JBool False)) rest)
          else if c = 0x6E then
            (case strip_prefix (js ''null'') cs of
               None \<Rightarrow> Bad | Some rest \<Rightarrow> Tok (TLit JNull) rest)
          else if c = 0x2D \<or> is_digit c then
            (case lex_number cs of None \<Rightarrow> Bad | Some (v, rest) \<Rightarrow> Tok (TNum v) rest)
          else Bad)"

lemma strip_prefix_length:
  "strip_prefix p cs = Some rest \<Longrightarrow> length cs = length p + length rest"
  by (induction p cs rule: strip_prefix.induct) (auto split: if_splits)

lemma lex_string_length:
  "lex_string cs = Some (s, rest) \<Longrightarrow> length rest < length cs"
  by (induction cs arbitrary: s rest rule: lex_string.induct)
    (fastforce split: if_splits list.splits option.splits)+

lemma lex_exp_length:
  assumes "lex_exp cs = Some (ex, rest)"
  shows "length rest \<le> length cs"
proof (cases cs)
  case Nil
  with assms show ?thesis
    by (simp add: lex_exp_def)
next
  case (Cons c r)
  show ?thesis
  proof (cases "c = 0x65 \<or> c = 0x45")
    case False
    with assms Cons show ?thesis
      by (simp add: lex_exp_def)
  next
    case True
    with assms Cons have "rest = dropWhile is_digit (snd (lex_exp_sign r))"
      by (auto simp: lex_exp_def Let_def split: prod.splits if_splits)
    moreover have "length (dropWhile is_digit (snd (lex_exp_sign r))) \<le> length (snd (lex_exp_sign r))"
      by (rule length_dropWhile_le)
    moreover have "length (snd (lex_exp_sign r)) \<le> length r"
      by (auto simp: lex_exp_sign_def split: list.splits)
    ultimately show ?thesis
      using Cons by simp
  qed
qed

lemma lex_frac_length:
  assumes "lex_frac cs = Some (fp, rest)"
  shows "length rest \<le> length cs"
proof (cases cs)
  case Nil
  with assms show ?thesis
    by (simp add: lex_frac_def)
next
  case (Cons c r)
  have "length (dropWhile is_digit r) \<le> length r"
    by (rule length_dropWhile_le)
  with assms Cons show ?thesis
    by (auto simp: lex_frac_def Let_def split: if_splits)
qed

lemma lex_int_length:
  assumes "lex_int cs = Some (ip, rest)"
  shows "length rest < length cs"
proof -
  from assms have ne: "takeWhile is_digit cs \<noteq> []" and rest: "rest = dropWhile is_digit cs"
    by (auto simp: lex_int_def Let_def split: if_splits)
  have "length (takeWhile is_digit cs) + length (dropWhile is_digit cs) = length cs"
    by (metis length_append takeWhile_dropWhile_id)
  moreover from ne have "0 < length (takeWhile is_digit cs)"
    by simp
  ultimately show ?thesis
    unfolding rest by arith
qed

lemma lex_number_length:
  assumes "lex_number cs = Some (v, rest)"
  shows "length rest < length cs"
proof -
  obtain neg cs1 where s: "lex_sign cs = (neg, cs1)"
    by (cases "lex_sign cs")
  from assms s obtain ip cs2 where i: "lex_int cs1 = Some (ip, cs2)"
    by (auto simp: lex_number_def split: option.splits)
  from assms s i obtain fp cs3 where f: "lex_frac cs2 = Some (fp, cs3)"
    by (auto simp: lex_number_def split: option.splits)
  from assms s i f obtain ex where e: "lex_exp cs3 = Some (ex, rest)"
    by (auto simp: lex_number_def split: option.splits)
  from s have "length cs1 \<le> length cs"
    by (auto simp: lex_sign_def split: list.splits if_splits)
  with lex_int_length [OF i] lex_frac_length [OF f] lex_exp_length [OF e]
  show ?thesis
    by simp
qed

lemma next_token_length:
  "next_token cs = Tok t rest \<Longrightarrow> length rest < length cs"
  by (auto simp: next_token_def js_def split: list.splits if_splits option.splits
      dest!: lex_string_length lex_number_length strip_prefix_length)

function tokenise :: "jsstring \<Rightarrow> token list option" where
  "tokenise cs =
     (case next_token (dropWhile is_ws cs) of
        EOF \<Rightarrow> Some []
      | Bad \<Rightarrow> None
      | Tok t rest \<Rightarrow> map_option (Cons t) (tokenise rest))"
  by pat_completeness auto
termination
proof (relation "measure length")
  show "wf (measure length)"
    by simp
next
  fix cs :: jsstring and t rest
  assume "next_token (dropWhile is_ws cs) = Tok t rest"
  then have "length rest < length (dropWhile is_ws cs)"
    by (rule next_token_length)
  also have "\<dots> \<le> length cs"
    by (rule length_dropWhile_le)
  finally show "(rest, cs) \<in> measure length"
    by simp
qed

declare tokenise.simps [simp del]

subsection \<open>Reading JSON text: the grammar\<close>

text \<open>
  The tokens are read from left to right with a stack of the arrays and objects that are
  still open. An open object remembers the key that waits for its value.
\<close>

datatype frame =
  Arr "jsval list"
  | Obj "(jsstring \<times> jsval) list" "jsstring option"

datatype expect = Val | ValOrEnd | KeyOrEnd | Key | KeyColon | SepOrEnd

datatype pstate = PS "frame list" expect | Done jsval

text \<open>Defining a property: a key that is there already gets the new value in place.\<close>

fun set_property :: "jsstring \<Rightarrow> jsval \<Rightarrow> (jsstring \<times> jsval) list \<Rightarrow> (jsstring \<times> jsval) list" where
  "set_property k v [] = [(k, v)]"
| "set_property k v (p # ps) = (if fst p = k then (k, v) # ps else p # set_property k v ps)"

text \<open>A value is complete: it goes into the innermost open container, or it is the result.\<close>

fun put :: "jsval \<Rightarrow> frame list \<Rightarrow> pstate option" where
  "put v [] = Some (Done v)"
| "put v (Arr items # st) = Some (PS (Arr (items @ [v]) # st) SepOrEnd)"
| "put v (Obj ms (Some k) # st) = Some (PS (Obj (set_property k v ms) None # st) SepOrEnd)"
| "put v (Obj ms None # st) = None"

fun value_start :: "token \<Rightarrow> frame list \<Rightarrow> pstate option" where
  "value_start LBrack st = Some (PS (Arr [] # st) ValOrEnd)"
| "value_start LBrace st = Some (PS (Obj [] None # st) KeyOrEnd)"
| "value_start (TStr s) st = put (JStr s) st"
| "value_start (TNum n) st = put (JNum n) st"
| "value_start (TLit v) st = put v st"
| "value_start _ st = None"

fun close_array :: "frame list \<Rightarrow> pstate option" where
  "close_array (Arr items # st) = put (JArr items) st"
| "close_array _ = None"

fun close_object :: "frame list \<Rightarrow> pstate option" where
  "close_object (Obj ms None # st) = put (JObj ms) st"
| "close_object _ = None"

fun member_key :: "token \<Rightarrow> frame list \<Rightarrow> pstate option" where
  "member_key (TStr k) (Obj ms None # st) = Some (PS (Obj ms (Some k) # st) KeyColon)"
| "member_key _ _ = None"

fun separator :: "frame list \<Rightarrow> pstate option" where
  "separator (Arr items # st) = Some (PS (Arr items # st) Val)"
| "separator (Obj ms None # st) = Some (PS (Obj ms None # st) Key)"
| "separator _ = None"

fun step :: "token \<Rightarrow> pstate \<Rightarrow> pstate option" where
  "step t (Done v) = None"
| "step t (PS st Val) = value_start t st"
| "step t (PS st ValOrEnd) = (if t = RBrack then close_array st else value_start t st)"
| "step t (PS st KeyOrEnd) = (if t = RBrace then close_object st else member_key t st)"
| "step t (PS st Key) = member_key t st"
| "step t (PS st KeyColon) = (if t = Colon then Some (PS st Val) else None)"
| "step t (PS st SepOrEnd) =
     (if t = Comma then separator st
      else if t = RBrack then close_array st
      else if t = RBrace then close_object st
      else None)"

fun run_tokens :: "token list \<Rightarrow> pstate \<Rightarrow> pstate option" where
  "run_tokens [] s = Some s"
| "run_tokens (t # ts) s = (case step t s of None \<Rightarrow> None | Some s' \<Rightarrow> run_tokens ts s')"

text \<open>Reading a text from a given state of the grammar.\<close>

definition feed :: "pstate \<Rightarrow> jsstring \<Rightarrow> pstate option" where
  "feed st cs = (case tokenise cs of None \<Rightarrow> None | Some ts \<Rightarrow> run_tokens ts st)"

text \<open>\<^verbatim>\<open>JSON.parse(text)\<close>: the value, or the \<^verbatim>\<open>SyntaxError\<close> it throws.\<close>

definition JSON_parse :: "jsstring \<Rightarrow> exn + jsval" where
  "JSON_parse text =
     (case tokenise text of
        None \<Rightarrow> Inl SyntaxError
      | Some ts \<Rightarrow>
          (case run_tokens ts (PS [] Val) of
             Some (Done v) \<Rightarrow> Inr v
           | _ \<Rightarrow> Inl SyntaxError))"

subsection \<open>Writing JSON text\<close>

text \<open>
  \<^verbatim>\<open>QuoteJSONString\<close>: the quote, the backslash and the control characters are escaped,
  and so is a surrogate without its partner; a surrogate pair is copied.
\<close>

definition hex_digit :: "nat \<Rightarrow> 16 word" where
  "hex_digit d = (if d < 10 then word_of_nat (48 + d) else word_of_nat (87 + d))"

definition UnicodeEscape :: "16 word \<Rightarrow> jsstring" where
  "UnicodeEscape c =
     [0x5C, 0x75, hex_digit (unat c div 4096), hex_digit (unat c div 256 mod 16),
      hex_digit (unat c div 16 mod 16), hex_digit (unat c mod 16)]"

definition is_high_surrogate :: "16 word \<Rightarrow> bool" where
  "is_high_surrogate c = (0xD800 \<le> unat c \<and> unat c \<le> 0xDBFF)"

definition is_low_surrogate :: "16 word \<Rightarrow> bool" where
  "is_low_surrogate c = (0xDC00 \<le> unat c \<and> unat c \<le> 0xDFFF)"

fun quote_chars :: "jsstring \<Rightarrow> jsstring" where
  "quote_chars [] = []"
| "quote_chars (c # cs) =
     (if c = 0x08 then [0x5C, 0x62] @ quote_chars cs
      else if c = 0x09 then [0x5C, 0x74] @ quote_chars cs
      else if c = 0x0A then [0x5C, 0x6E] @ quote_chars cs
      else if c = 0x0C then [0x5C, 0x66] @ quote_chars cs
      else if c = 0x0D then [0x5C, 0x72] @ quote_chars cs
      else if c = 0x22 then [0x5C, 0x22] @ quote_chars cs
      else if c = 0x5C then [0x5C, 0x5C] @ quote_chars cs
      else if unat c < 0x20 then UnicodeEscape c @ quote_chars cs
      else if is_high_surrogate c then
        (case cs of
           [] \<Rightarrow> UnicodeEscape c
         | d # ds \<Rightarrow>
             if is_low_surrogate d then c # d # quote_chars ds
             else UnicodeEscape c @ quote_chars cs)
      else if is_low_surrogate c then UnicodeEscape c @ quote_chars cs
      else c # quote_chars cs)"

definition QuoteJSONString :: "jsstring \<Rightarrow> jsstring" where
  "QuoteJSONString s = [0x22] @ quote_chars s @ [0x22]"

text \<open>\<^verbatim>\<open>Number::toString\<close> for an integer: its decimal digits.\<close>

function show_nat :: "nat \<Rightarrow> jsstring" where
  "show_nat n =
     (if n < 10 then [word_of_nat (48 + n)]
      else show_nat (n div 10) @ [word_of_nat (48 + n mod 10)])"
  by pat_completeness auto
termination
  by (relation "measure id") auto

declare show_nat.simps [simp del]

definition Number_toString :: "int \<Rightarrow> jsstring" where
  "Number_toString i = (if i < 0 then [0x2D] @ show_nat (nat (- i)) else show_nat (nat i))"

fun join_comma :: "jsstring list \<Rightarrow> jsstring" where
  "join_comma [] = []"
| "join_comma [x] = x"
| "join_comma (x # y # ys) = x @ [0x2C] @ join_comma (y # ys)"

text \<open>
  \<^verbatim>\<open>SerializeJSONObject\<close> for a \<^verbatim>\<open>Task\<close>: its three properties in the order the page
  creates them (\<^verbatim>\<open>id\<close>, \<^verbatim>\<open>name\<close>, \<^verbatim>\<open>isRGA\<close>; the spread in the mutators keeps it).
\<close>

definition stringify_Task :: "Task \<Rightarrow> jsstring" where
  "stringify_Task t =
     [0x7B]
     @ join_comma
         [QuoteJSONString (js ''id'') @ [0x3A] @ Number_toString (id_task t),
          QuoteJSONString (js ''name'') @ [0x3A] @ QuoteJSONString (name t),
          QuoteJSONString (js ''isRGA'') @ [0x3A] @ (if isRGA t then js ''true'' else js ''false'')]
     @ [0x7D]"

text \<open>\<^verbatim>\<open>JSON.stringify(tasks)\<close> for \<^verbatim>\<open>tasks: Task[]\<close>, without indentation.\<close>

definition JSON_stringify :: "Task list \<Rightarrow> jsstring" where
  "JSON_stringify ts = [0x5B] @ join_comma (map stringify_Task ts) @ [0x5D]"

subsection \<open>The storage\<close>

text \<open>
  The environment of a call: whether there is a \<^verbatim>\<open>window\<close> (there is none while the
  server renders), whether the browser refuses the access to \<^verbatim>\<open>localStorage\<close> (it
  then throws), and what is stored.
\<close>

record env =
  window_defined :: bool
  storage_denied :: bool
  store :: "jsstring \<Rightarrow> jsstring option"

definition STORAGE_KEY :: jsstring where
  "STORAGE_KEY = js ''dailyflow-tasks''"

definition localStorage_getItem :: "env \<Rightarrow> jsstring \<Rightarrow> exn + jsstring option" where
  "localStorage_getItem e k = (if storage_denied e then Inl SecurityError else Inr (store e k))"

definition localStorage_setItem :: "env \<Rightarrow> jsstring \<Rightarrow> jsstring \<Rightarrow> exn + env" where
  "localStorage_setItem e k v =
     (if storage_denied e then Inl SecurityError else Inr (e\<lparr>store := (store e)(k \<mapsto> v)\<rparr>))"

subsection \<open>Loading and persisting\<close>

text \<open>
  The body of the \<^verbatim>\<open>try\<close> in \<^verbatim>\<open>loadTasks\<close>: \<open>Inr (Some parsed)\<close> is its
  \<^verbatim>\<open>return parsed\<close>, \<open>Inr None\<close> is leaving the block at its end, \<open>Inl\<close> is an exception.
  \<^verbatim>\<open>if (raw)\<close> is false for \<^verbatim>\<open>null\<close> and for the empty string. The cast
  \<^verbatim>\<open>as Task[]\<close> checks nothing, so the array is returned with whatever it holds.
\<close>

fun Array_isArray :: "jsval \<Rightarrow> bool" where
  "Array_isArray (JArr xs) = True"
| "Array_isArray _ = False"

fun elements :: "jsval \<Rightarrow> jsval list" where
  "elements (JArr xs) = xs"
| "elements _ = []"

definition loadTasks_try :: "env \<Rightarrow> exn + jsval list option" where
  "loadTasks_try e =
     (case localStorage_getItem e STORAGE_KEY of
        Inl x \<Rightarrow> Inl x
      | Inr raw \<Rightarrow>
          (case raw of
             None \<Rightarrow> Inr None
           | Some r \<Rightarrow>
               if r = [] then Inr None
               else
                 (case JSON_parse r of
                    Inl x \<Rightarrow> Inl x
                  | Inr parsed \<Rightarrow>
                      if Array_isArray parsed \<and> length (elements parsed) = 6
                      then Inr (Some (elements parsed))
                      else Inr None)))"

text \<open>
  \<^verbatim>\<open>loadTasks\<close>: the empty \<^verbatim>\<open>catch {}\<close> swallows every exception of the block, and
  the function goes on to its last line.
\<close>

definition loadTasks :: "env \<Rightarrow> exn + jsval list" where
  "loadTasks e =
     (if \<not> window_defined e then Inr (map Task_object createDefaultTasks)
      else
        (case loadTasks_try e of
           Inr (Some parsed) \<Rightarrow> Inr parsed
         | Inr None \<Rightarrow> Inr (map Task_object createDefaultTasks)
         | Inl x \<Rightarrow> Inr (map Task_object createDefaultTasks)))"

text \<open>
  The persist effect: after hydration it writes the tasks. It has no \<^verbatim>\<open>try\<close>, so an
  exception of the storage leaves it.
\<close>

definition persist :: "home_state \<Rightarrow> env \<Rightarrow> exn + env" where
  "persist s e =
     (if hydrated s then localStorage_setItem e STORAGE_KEY (JSON_stringify (tasks s))
      else Inr e)"

subsection \<open>Replacing one entry\<close>

text \<open>
  What "the new collection is the old one with one entry replaced" means: at some
  position \<open>k\<close> the entry is the edited old entry, everywhere else nothing moved.
\<close>

definition replaces_one :: "(Task \<Rightarrow> Task) \<Rightarrow> Task list \<Rightarrow> Task list \<Rightarrow> bool" where
  "replaces_one f ts ts' = list_ex (\<lambda>k. ts' = ts[k := f (ts ! k)]) [0..<length ts]"

section \<open>Properties\<close>

subsection \<open>Auxiliary facts\<close>

lemma createDefaultTasks_unfold:
  "createDefaultTasks =
     [\<lparr>id_task = 1, name = [], isRGA = False\<rparr>, \<lparr>id_task = 2, name = [], isRGA = False\<rparr>,
      \<lparr>id_task = 3, name = [], isRGA = False\<rparr>, \<lparr>id_task = 4, name = [], isRGA = False\<rparr>,
      \<lparr>id_task = 5, name = [], isRGA = False\<rparr>, \<lparr>id_task = 6, name = [], isRGA = False\<rparr>]"
  by (simp add: createDefaultTasks_def upt_rec)

lemma rerender_fields:
  "secondsLeft (rerender prev s) = secondsLeft s"
  "running (rerender prev s) = running s"
  "activeId (rerender prev s) = activeId s"
  "tasks (rerender prev s) = tasks s"
  by (simp_all add: rerender_def timer_effect_def clearTimer_def)

lemma interval_dispatch:
  "intervalRef s = running s \<Longrightarrow> intervalRef (dispatch s e) = running (dispatch s e)"
  by (cases e)
    (auto simp: dispatch_def rerender_def timer_effect_def clearTimer_def handleTaskClick_def
      handleNameChange_def toggleRGA_def handleStart_def handlePause_def tick_def)

text \<open>After every sequence of events there is an interval exactly when the timer runs.\<close>

lemma interval_follows_running: "intervalRef (run es) = running (run es)"
proof -
  have "intervalRef s = running s \<Longrightarrow>
      intervalRef (foldl dispatch s es) = running (foldl dispatch s es)" for s
    by (induction es arbitrary: s) (simp_all add: interval_dispatch)
  then show ?thesis
    by (simp add: run_def Home_initial_def)
qed

lemma tick_before_expiry:
  "running s \<Longrightarrow> secondsLeft s = int n \<Longrightarrow> k < n \<Longrightarrow>
   secondsLeft ((tick ^^ k) s) = int n - int k \<and> running ((tick ^^ k) s)"
  by (induction k) (auto simp: tick_def)

lemma tick_expiry:
  assumes "running s" and "secondsLeft s = int n" and "0 < n"
  shows "secondsLeft ((tick ^^ n) s) = 0 \<and> \<not> running ((tick ^^ n) s)"
proof -
  from \<open>0 < n\<close> obtain m where m: "n = Suc m"
    by (cases n) auto
  have "secondsLeft ((tick ^^ m) s) = 1"
    using tick_before_expiry [OF assms(1,2), of m] m by simp
  then show ?thesis
    unfolding m by (simp add: tick_def clearTimer_def)
qed

subsection \<open>Selecting a task\<close>

text \<open>
  Claim C4. From every state, a click on a task other than the active one makes it the
  active task, and a click on the active task leaves no task active; either way the timer
  is stopped and the remaining time is 1500 seconds again.
\<close>

theorem handleTaskClick_resets:
  "(activeId s \<noteq> Some i \<longrightarrow>
      activeId (handleTaskClick i s) = Some i
      \<and> \<not> running (handleTaskClick i s)
      \<and> secondsLeft (handleTaskClick i s) = 1500)
   \<and> (activeId s = Some i \<longrightarrow>
      activeId (handleTaskClick i s) = None
      \<and> \<not> running (handleTaskClick i s)
      \<and> secondsLeft (handleTaskClick i s) = 1500)"
  by (simp add: handleTaskClick_def TIMER_SECONDS_def)

theorem handleTaskClick_resets_witness:
  "activeId (handleTaskClick 3 (handleStart (handleTaskClick 2 Home_initial))) = Some 3
   \<and> \<not> running (handleTaskClick 3 (handleStart (handleTaskClick 2 Home_initial)))
   \<and> secondsLeft (handleTaskClick 3 (handleStart (handleTaskClick 2 Home_initial))) = 1500
   \<and> activeId (handleTaskClick 2 (tick (handleStart (handleTaskClick 2 Home_initial)))) = None
   \<and> \<not> running (handleTaskClick 2 (tick (handleStart (handleTaskClick 2 Home_initial))))
   \<and> secondsLeft (handleTaskClick 2 (tick (handleStart (handleTaskClick 2 Home_initial)))) = 1500"
proof -
  have a: "activeId (handleStart (handleTaskClick 2 Home_initial)) \<noteq> Some 3"
    by (simp add: handleStart_def handleTaskClick_def Home_initial_def TIMER_SECONDS_def)
  have b: "activeId (tick (handleStart (handleTaskClick 2 Home_initial))) = Some 2"
    by (simp add: tick_def handleStart_def handleTaskClick_def Home_initial_def
        TIMER_SECONDS_def)
  from a b
    handleTaskClick_resets [of "handleStart (handleTaskClick 2 Home_initial)" 3]
    handleTaskClick_resets [of "tick (handleStart (handleTaskClick 2 Home_initial))" 2]
  show ?thesis by blast
qed

subsection \<open>Counting down\<close>

text \<open>
  Claim C5. From a state with 1500 seconds left and the timer stopped (a fresh
  selection), after one start each of the first 1499 ticks takes one second off and leaves
  the timer running, the 1500th tick reaches 0 and stops the timer, and a further start
  in that state changes nothing.
\<close>

theorem countdown_1500_ticks:
  assumes "secondsLeft s = 1500" and "\<not> running s"
  shows "secondsLeft ((tick ^^ 1500) (handleStart s)) = 0
    \<and> \<not> running ((tick ^^ 1500) (handleStart s))
    \<and> handleStart ((tick ^^ 1500) (handleStart s)) = (tick ^^ 1500) (handleStart s)
    \<and> (\<forall>k<1500. secondsLeft ((tick ^^ k) (handleStart s)) = 1500 - int k
          \<and> running ((tick ^^ k) (handleStart s)))"
proof -
  have r: "running (handleStart s)" and n: "secondsLeft (handleStart s) = int 1500"
    using assms by (simp_all add: handleStart_def)
  have e: "secondsLeft ((tick ^^ 1500) (handleStart s)) = 0
      \<and> \<not> running ((tick ^^ 1500) (handleStart s))"
    using tick_expiry [OF r n] by simp
  have b: "\<forall>k<1500. secondsLeft ((tick ^^ k) (handleStart s)) = 1500 - int k
      \<and> running ((tick ^^ k) (handleStart s))"
    using tick_before_expiry [OF r n] by simp
  from e have "handleStart ((tick ^^ 1500) (handleStart s)) = (tick ^^ 1500) (handleStart s)"
    by (simp add: handleStart_def)
  with e b show ?thesis by blast
qed

theorem countdown_1500_ticks_witness:
  "secondsLeft (handleTaskClick 3 Home_initial) = 1500
   \<and> \<not> running (handleTaskClick 3 Home_initial)
   \<and> secondsLeft ((tick ^^ 1500) (handleStart (handleTaskClick 3 Home_initial))) = 0
   \<and> \<not> running ((tick ^^ 1500) (handleStart (handleTaskClick 3 Home_initial)))
   \<and> handleStart ((tick ^^ 1500) (handleStart (handleTaskClick 3 Home_initial)))
       = (tick ^^ 1500) (handleStart (handleTaskClick 3 Home_initial))"
proof -
  have a: "secondsLeft (handleTaskClick 3 Home_initial) = 1500"
    and b: "\<not> running (handleTaskClick 3 Home_initial)"
    by (simp_all add: handleTaskClick_def Home_initial_def TIMER_SECONDS_def)
  from a b countdown_1500_ticks [OF a b] show ?thesis by blast
qed


subsection \<open>The remaining time stays between 0 and 1500\<close>

lemma secondsLeft_dispatch_range:
  "0 \<le> secondsLeft s \<and> secondsLeft s \<le> 1500 \<Longrightarrow>
   0 \<le> secondsLeft (dispatch s e) \<and> secondsLeft (dispatch s e) \<le> 1500"
  by (cases e)
    (auto simp: dispatch_def rerender_fields handleTaskClick_def handleNameChange_def
      toggleRGA_def handleStart_def handlePause_def tick_def clearTimer_def TIMER_SECONDS_def)

lemma secondsLeft_foldl_range:
  "0 \<le> secondsLeft s \<and> secondsLeft s \<le> 1500 \<Longrightarrow>
   0 \<le> secondsLeft (foldl dispatch s es) \<and> secondsLeft (foldl dispatch s es) \<le> 1500"
proof (induction es arbitrary: s)
  case Nil
  then show ?case by simp
next
  case (Cons e es)
  from Cons.prems have "0 \<le> secondsLeft (dispatch s e) \<and> secondsLeft (dispatch s e) \<le> 1500"
    by (rule secondsLeft_dispatch_range)
  then show ?case
    using Cons.IH [of "dispatch s e"] by simp
qed

text \<open>
  Claim C6. The remaining time starts at 1500, every click on a task sets it to 1500,
  start and pause do not touch it, a tick at 1 or at 0 (a stale one) sets it to 0 and stops
  the timer, a tick never makes it negative, and after every sequence of events it is
  between 0 and 1500.
\<close>

theorem secondsLeft_range:
  "secondsLeft Home_initial = 1500
   \<and> secondsLeft (handleTaskClick i s) = 1500
   \<and> secondsLeft (handleStart s) = secondsLeft s
   \<and> secondsLeft (handlePause s) = secondsLeft s
   \<and> (secondsLeft s = 1 \<or> secondsLeft s = 0 \<longrightarrow>
        secondsLeft (tick s) = 0 \<and> \<not> running (tick s))
   \<and> (0 \<le> secondsLeft s \<longrightarrow> 0 \<le> secondsLeft (tick s) \<and> secondsLeft (tick s) \<le> secondsLeft s)
   \<and> 0 \<le> secondsLeft (run es) \<and> secondsLeft (run es) \<le> 1500"
proof -
  have "0 \<le> secondsLeft Home_initial \<and> secondsLeft Home_initial \<le> 1500"
    by (simp add: Home_initial_def TIMER_SECONDS_def)
  then have "0 \<le> secondsLeft (run es) \<and> secondsLeft (run es) \<le> 1500"
    unfolding run_def by (rule secondsLeft_foldl_range)
  moreover have "secondsLeft Home_initial = 1500"
    by (simp add: Home_initial_def TIMER_SECONDS_def)
  moreover have "secondsLeft (handleTaskClick i s) = 1500"
    by (simp add: handleTaskClick_def TIMER_SECONDS_def)
  moreover have "secondsLeft (handleStart s) = secondsLeft s"
    by (simp add: handleStart_def)
  moreover have "secondsLeft (handlePause s) = secondsLeft s"
    by (simp add: handlePause_def)
  moreover have "secondsLeft s = 1 \<or> secondsLeft s = 0 \<longrightarrow>
      secondsLeft (tick s) = 0 \<and> \<not> running (tick s)"
    by (auto simp: tick_def)
  moreover have "0 \<le> secondsLeft s \<longrightarrow>
      0 \<le> secondsLeft (tick s) \<and> secondsLeft (tick s) \<le> secondsLeft s"
    by (simp add: tick_def)
  ultimately show ?thesis by blast
qed

theorem secondsLeft_range_witness:
  "secondsLeft (tick (tick (Home_initial\<lparr>secondsLeft := 1, running := True\<rparr>))) = 0
   \<and> \<not> running (tick (tick (Home_initial\<lparr>secondsLeft := 1, running := True\<rparr>)))
   \<and> 0 \<le> secondsLeft (run [Click 2, Start, Tick, Pause, Tick, Click 2, Start])
   \<and> secondsLeft (run [Click 2, Start, Tick, Pause, Tick, Click 2, Start]) \<le> 1500"
proof -
  have a: "secondsLeft (tick (Home_initial\<lparr>secondsLeft := 1, running := True\<rparr>)) = 0"
    by (simp add: tick_def)
  from a
    secondsLeft_range [where s = "tick (Home_initial\<lparr>secondsLeft := 1, running := True\<rparr>)"
      and es = "[Click 2, Start, Tick, Pause, Tick, Click 2, Start]"]
  show ?thesis by blast
qed

subsection \<open>Starting the timer\<close>

text \<open>
  Claim C8. With no time left a start changes nothing in the state, and a start makes a
  stopped timer run only when some time is left.
\<close>

theorem handleStart_at_zero:
  "(secondsLeft s = 0 \<longrightarrow> handleStart s = s)
   \<and> (\<not> running s \<and> running (handleStart s) \<longrightarrow> 0 < secondsLeft s)
   \<and> (0 < secondsLeft s \<longrightarrow> running (handleStart s))"
  by (simp add: handleStart_def)

theorem handleStart_at_zero_witness:
  "handleStart (Home_initial\<lparr>activeId := Some 4, secondsLeft := 0\<rparr>)
     = Home_initial\<lparr>activeId := Some 4, secondsLeft := 0\<rparr>
   \<and> running (handleStart (handleTaskClick 4 Home_initial))"
proof -
  have a: "secondsLeft (Home_initial\<lparr>activeId := Some 4, secondsLeft := 0\<rparr>) = 0"
    by simp
  have b: "0 < secondsLeft (handleTaskClick 4 Home_initial)"
    by (simp add: handleTaskClick_def Home_initial_def TIMER_SECONDS_def)
  from a b
    handleStart_at_zero [of "Home_initial\<lparr>activeId := Some 4, secondsLeft := 0\<rparr>"]
    handleStart_at_zero [of "handleTaskClick 4 Home_initial"]
  show ?thesis by blast
qed

text \<open>
  Claim C10. A start looks at the remaining time only: whenever some time is left it sets
  the timer running and leaves the selection as it is, also when no task is active, so the
  result can be a running timer without an active task.
\<close>

theorem handleStart_ignores_selection:
  "0 < secondsLeft s \<Longrightarrow>
   running (handleStart s) \<and> activeId (handleStart s) = activeId s
   \<and> handleStart s = s\<lparr>running := True\<rparr>"
  by (simp add: handleStart_def)

theorem handleStart_ignores_selection_witness:
  "0 < secondsLeft Home_initial \<and> activeId Home_initial = None
   \<and> running (handleStart Home_initial) \<and> activeId (handleStart Home_initial) = None"
proof -
  have a: "0 < secondsLeft Home_initial" and b: "activeId Home_initial = None"
    by (simp_all add: Home_initial_def TIMER_SECONDS_def)
  from a b handleStart_ignores_selection [OF a] show ?thesis by simp
qed


subsection \<open>Editing the tasks\<close>

lemma ids_dispatch:
  "map id_task (tasks (dispatch s e)) = map id_task (tasks s)"
  by (cases e)
    (simp_all add: dispatch_def rerender_fields handleTaskClick_def handleNameChange_def
      toggleRGA_def handleStart_def handlePause_def tick_def clearTimer_def comp_def)

lemma ids_foldl_dispatch:
  "map id_task (tasks (foldl dispatch s es)) = map id_task (tasks s)"
  by (induction es arbitrary: s) (simp_all add: ids_dispatch)

lemma ids_run: "map id_task (tasks (run es)) = [1, 2, 3, 4, 5, 6]"
  by (simp add: run_def ids_foldl_dispatch Home_initial_def createDefaultTasks_unfold)

lemma edit_in_range:
  assumes ids: "map id_task ts = [1, 2, 3, 4, 5, 6]" and i: "1 \<le> i" "i \<le> 6"
  shows "map (\<lambda>t. if id_task t = i then f t else t) ts = ts[nat (i - 1) := f (ts ! nat (i - 1))]"
proof -
  from ids obtain a b c d e g where ts: "ts = [a, b, c, d, e, g]"
    and "id_task a = 1" "id_task b = 2" "id_task c = 3"
    and "id_task d = 4" "id_task e = 5" "id_task g = 6"
    by (auto simp: map_eq_Cons_conv)
  moreover from i have "i = 1 \<or> i = 2 \<or> i = 3 \<or> i = 4 \<or> i = 5 \<or> i = 6"
    by arith
  ultimately show ?thesis
    by (elim disjE) simp_all
qed

lemma edit_out_of_range:
  assumes ids: "map id_task ts = [1, 2, 3, 4, 5, 6]" and i: "\<not> (1 \<le> i \<and> i \<le> 6)"
  shows "map (\<lambda>t. if id_task t = i then f t else t) ts = ts"
proof -
  have "id_task t \<noteq> i" if "t \<in> set ts" for t
  proof -
    from that have "id_task t \<in> set (map id_task ts)"
      by simp
    with ids i show ?thesis
      by auto
  qed
  then show ?thesis
    by (simp add: map_idI)
qed

lemma replaces_one_update:
  "k < length ts \<Longrightarrow> replaces_one f ts (ts[k := f (ts ! k)])"
  by (auto simp: replaces_one_def list_ex_iff)

text \<open>
  Claim C1, as amended. After every sequence of events from the initial state the
  collection has the six ids 1 to 6 in ascending order. Neither mutator changes the number,
  the order or the ids of the tasks; a name edit keeps every flag and a toggle keeps every
  name. With an id from 1 to 6 the mutator replaces the one entry at position id - 1 by
  its edited copy; with any other id it replaces no entry.
\<close>

theorem edits_keep_six_tasks:
  "map id_task (tasks (run es)) = [1, 2, 3, 4, 5, 6]
   \<and> length (tasks (run es)) = 6
   \<and> map id_task (tasks (handleNameChange i val s)) = map id_task (tasks s)
   \<and> map isRGA (tasks (handleNameChange i val s)) = map isRGA (tasks s)
   \<and> map id_task (tasks (toggleRGA i s)) = map id_task (tasks s)
   \<and> map name (tasks (toggleRGA i s)) = map name (tasks s)
   \<and> (1 \<le> i \<and> i \<le> 6 \<longrightarrow>
        tasks (handleNameChange i val (run es))
          = (tasks (run es))[nat (i - 1) := (tasks (run es) ! nat (i - 1))\<lparr>name := val\<rparr>]
        \<and> replaces_one (\<lambda>t. t\<lparr>name := val\<rparr>) (tasks (run es))
            (tasks (handleNameChange i val (run es)))
        \<and> tasks (toggleRGA i (run es))
          = (tasks (run es))[nat (i - 1) := (tasks (run es) ! nat (i - 1))
              \<lparr>isRGA := \<not> isRGA (tasks (run es) ! nat (i - 1))\<rparr>]
        \<and> replaces_one (\<lambda>t. t\<lparr>isRGA := \<not> isRGA t\<rparr>) (tasks (run es))
            (tasks (toggleRGA i (run es))))
   \<and> (\<not> (1 \<le> i \<and> i \<le> 6) \<longrightarrow>
        tasks (handleNameChange i val (run es)) = tasks (run es)
        \<and> tasks (toggleRGA i (run es)) = tasks (run es))"
proof -
  note ids = ids_run [of es]
  have len: "length (tasks (run es)) = 6"
    using arg_cong [OF ids, of length] by simp
  have keep: "map id_task (tasks (handleNameChange i val s)) = map id_task (tasks s)"
    "map isRGA (tasks (handleNameChange i val s)) = map isRGA (tasks s)"
    "map id_task (tasks (toggleRGA i s)) = map id_task (tasks s)"
    "map name (tasks (toggleRGA i s)) = map name (tasks s)"
    by (simp_all add: handleNameChange_def toggleRGA_def comp_def)
  have inside: "tasks (handleNameChange i val (run es))
          = (tasks (run es))[nat (i - 1) := (tasks (run es) ! nat (i - 1))\<lparr>name := val\<rparr>]
        \<and> replaces_one (\<lambda>t. t\<lparr>name := val\<rparr>) (tasks (run es))
            (tasks (handleNameChange i val (run es)))
        \<and> tasks (toggleRGA i (run es))
          = (tasks (run es))[nat (i - 1) := (tasks (run es) ! nat (i - 1))
              \<lparr>isRGA := \<not> isRGA (tasks (run es) ! nat (i - 1))\<rparr>]
        \<and> replaces_one (\<lambda>t. t\<lparr>isRGA := \<not> isRGA t\<rparr>) (tasks (run es))
            (tasks (toggleRGA i (run es)))"
    if i: "1 \<le> i \<and> i \<le> 6"
  proof -
    from i len have k: "nat (i - 1) < length (tasks (run es))"
      by arith
    have n: "tasks (handleNameChange i val (run es))
        = (tasks (run es))[nat (i - 1) := (tasks (run es) ! nat (i - 1))\<lparr>name := val\<rparr>]"
      using edit_in_range [OF ids, of i "\<lambda>t. t\<lparr>name := val\<rparr>"] i
      by (simp add: handleNameChange_def)
    have t: "tasks (toggleRGA i (run es))
        = (tasks (run es))[nat (i - 1) := (tasks (run es) ! nat (i - 1))
              \<lparr>isRGA := \<not> isRGA (tasks (run es) ! nat (i - 1))\<rparr>]"
      using edit_in_range [OF ids, of i "\<lambda>t. t\<lparr>isRGA := \<not> isRGA t\<rparr>"] i
      by (simp add: toggleRGA_def)
    from n t
      replaces_one_update [OF k, of "\<lambda>t. t\<lparr>name := val\<rparr>"]
      replaces_one_update [OF k, of "\<lambda>t. t\<lparr>isRGA := \<not> isRGA t\<rparr>"]
    show ?thesis by simp
  qed
  have outside: "tasks (handleNameChange i val (run es)) = tasks (run es)
        \<and> tasks (toggleRGA i (run es)) = tasks (run es)"
    if i: "\<not> (1 \<le> i \<and> i \<le> 6)"
    using edit_out_of_range [OF ids i] by (simp add: handleNameChange_def toggleRGA_def)
  from ids len keep inside outside show ?thesis
    by blast
qed

theorem edits_keep_six_tasks_witness:
  "map id_task (tasks (run [NameChange 3 (js ''Write report''), ToggleRGA 9, ToggleRGA 2]))
     = [1, 2, 3, 4, 5, 6]
   \<and> replaces_one (\<lambda>t. t\<lparr>name := []\<rparr>)
       (tasks (run [NameChange 3 (js ''Write report''), ToggleRGA 9, ToggleRGA 2]))
       (tasks (handleNameChange 3 []
          (run [NameChange 3 (js ''Write report''), ToggleRGA 9, ToggleRGA 2])))
   \<and> tasks (toggleRGA 7 (run [NameChange 3 (js ''Write report''), ToggleRGA 9, ToggleRGA 2]))
       = tasks (run [NameChange 3 (js ''Write report''), ToggleRGA 9, ToggleRGA 2])"
proof -
  have a: "(1::int) \<le> 3 \<and> (3::int) \<le> 6" and b: "\<not> ((1::int) \<le> 7 \<and> (7::int) \<le> 6)"
    by simp_all
  from a b
    edits_keep_six_tasks [of "[NameChange 3 (js ''Write report''), ToggleRGA 9, ToggleRGA 2]"
      3 "[]"]
    edits_keep_six_tasks [of "[NameChange 3 (js ''Write report''), ToggleRGA 9, ToggleRGA 2]"
      7 "[]"]
  show ?thesis by blast
qed

text \<open>
  The claim as written fails for an id outside 1 to 6: the edit of task 7 leaves all six
  default entries as they were, so no position holds an entry with the new name or the
  flipped flag.
\<close>

theorem edits_keep_six_tasks_counterexample:
  "tasks (handleNameChange 7 (js ''x'') Home_initial) = createDefaultTasks
   \<and> \<not> replaces_one (\<lambda>t. t\<lparr>name := js ''x''\<rparr>) (tasks Home_initial)
        (tasks (handleNameChange 7 (js ''x'') Home_initial))
   \<and> tasks (toggleRGA 7 Home_initial) = createDefaultTasks
   \<and> \<not> replaces_one (\<lambda>t. t\<lparr>isRGA := \<not> isRGA t\<rparr>) (tasks Home_initial)
        (tasks (toggleRGA 7 Home_initial))"
  by (simp add: handleNameChange_def toggleRGA_def Home_initial_def createDefaultTasks_unfold
      replaces_one_def js_def upt_rec)

text \<open>
  Claim C9. Toggling the flag of a task twice gives back the state as it was; one toggle
  leaves the selection, the remaining time and the running flag alone, keeps the number
  of tasks, leaves every task with another id as it is and only flips the flag of a task
  with that id.
\<close>

theorem toggleRGA_involution:
  "toggleRGA i (toggleRGA i s) = s
   \<and> activeId (toggleRGA i s) = activeId s
   \<and> secondsLeft (toggleRGA i s) = secondsLeft s
   \<and> running (toggleRGA i s) = running s
   \<and> length (tasks (toggleRGA i s)) = length (tasks s)
   \<and> (\<forall>k<length (tasks s). id_task (tasks s ! k) \<noteq> i \<longrightarrow>
        tasks (toggleRGA i s) ! k = tasks s ! k)
   \<and> (\<forall>k<length (tasks s). id_task (tasks s ! k) = i \<longrightarrow>
        tasks (toggleRGA i s) ! k = (tasks s ! k)\<lparr>isRGA := \<not> isRGA (tasks s ! k)\<rparr>)"
proof -
  have "map ((\<lambda>t. if id_task t = i then t\<lparr>isRGA := \<not> isRGA t\<rparr> else t)
      \<circ> (\<lambda>t. if id_task t = i then t\<lparr>isRGA := \<not> isRGA t\<rparr> else t)) (tasks s) = tasks s"
    by (rule map_idI) simp
  then have "toggleRGA i (toggleRGA i s) = s"
    by (simp add: toggleRGA_def)
  then show ?thesis
    by (simp add: toggleRGA_def)
qed

theorem toggleRGA_involution_witness:
  "toggleRGA 2 (toggleRGA 2 (handleStart (handleTaskClick 5 Home_initial)))
     = handleStart (handleTaskClick 5 Home_initial)
   \<and> activeId (toggleRGA 2 (handleStart (handleTaskClick 5 Home_initial))) = Some 5
   \<and> running (toggleRGA 2 (handleStart (handleTaskClick 5 Home_initial)))
   \<and> tasks (toggleRGA 2 (handleStart (handleTaskClick 5 Home_initial))) ! 0
       = tasks (handleStart (handleTaskClick 5 Home_initial)) ! 0
   \<and> isRGA (tasks (toggleRGA 2 (handleStart (handleTaskClick 5 Home_initial))) ! 1)"
proof -
  have t: "tasks (handleStart (handleTaskClick 5 Home_initial)) = createDefaultTasks"
    and a: "activeId (handleStart (handleTaskClick 5 Home_initial)) = Some 5"
    and r: "running (handleStart (handleTaskClick 5 Home_initial))"
    by (simp_all add: handleStart_def handleTaskClick_def Home_initial_def TIMER_SECONDS_def)
  have k: "0 < length (tasks (handleStart (handleTaskClick 5 Home_initial)))"
    "1 < length (tasks (handleStart (handleTaskClick 5 Home_initial)))"
    "id_task (tasks (handleStart (handleTaskClick 5 Home_initial)) ! 0) \<noteq> 2"
    "id_task (tasks (handleStart (handleTaskClick 5 Home_initial)) ! 1) = 2"
    "\<not> isRGA (tasks (handleStart (handleTaskClick 5 Home_initial)) ! 1)"
    by (simp_all add: t createDefaultTasks_unfold)
  from a r k toggleRGA_involution [of 2 "handleStart (handleTaskClick 5 Home_initial)"]
  show ?thesis by simp
qed

subsection \<open>Strings are read back as they were quoted\<close>

lemma unat_48_plus: "d < 16 \<Longrightarrow> unat (48 + word_of_nat d :: 16 word) = 48 + d"
  using unat_of_nat [where 'a = 16, of "48 + d"] by simp

lemma unat_87_plus: "d < 16 \<Longrightarrow> unat (87 + word_of_nat d :: 16 word) = 87 + d"
  using unat_of_nat [where 'a = 16, of "87 + d"] by simp

lemma hex_val_hex_digit: "d < 16 \<Longrightarrow> hex_val (hex_digit d) = Some d"
  by (simp add: hex_val_def hex_digit_def unat_48_plus unat_87_plus Let_def)

lemma lex_string_escape:
  "escape_char e = Some u \<Longrightarrow> e \<noteq> 0x75 \<Longrightarrow>
   lex_string (0x5C # e # cs) = map_option (\<lambda>(s, rest). (u # s, rest)) (lex_string cs)"
  by simp

lemma lex_string_plain:
  "c \<noteq> 0x22 \<Longrightarrow> c \<noteq> 0x5C \<Longrightarrow> \<not> unat c < 0x20 \<Longrightarrow>
   lex_string (c # cs) = map_option (\<lambda>(s, rest). (c # s, rest)) (lex_string cs)"
  by simp

lemma hex_digits_sum:
  "((n div 4096 * 16 + n div 256 mod 16) * 16 + n div 16 mod 16) * 16 + n mod 16 = (n::nat)"
proof -
  have a: "n div 4096 = n div 256 div 16" and b: "n div 256 = n div 16 div 16"
    by (simp_all add: div_mult2_eq [symmetric])
  have "n div 256 div 16 * 16 + n div 256 mod 16 = n div 256"
    by (rule div_mult_mod_eq)
  then have "((n div 4096 * 16 + n div 256 mod 16) * 16 + n div 16 mod 16) * 16 + n mod 16
      = (n div 256 * 16 + n div 16 mod 16) * 16 + n mod 16"
    by (simp only: a)
  also have "n div 256 * 16 + n div 16 mod 16 = n div 16"
    unfolding b by (rule div_mult_mod_eq)
  also have "n div 16 * 16 + n mod 16 = n"
    by (rule div_mult_mod_eq)
  finally show ?thesis .
qed

lemma hex4_UnicodeEscape:
  "hex4 (hex_digit (unat c div 4096)) (hex_digit (unat c div 256 mod 16))
     (hex_digit (unat c div 16 mod 16)) (hex_digit (unat c mod 16)) = Some c"
proof -
  have lt: "unat c < 65536"
    using unsigned_less [of c] by simp
  then have d: "unat c div 4096 < 16"
    by simp
  have "word_of_nat (((unat c div 4096 * 16 + unat c div 256 mod 16) * 16
      + unat c div 16 mod 16) * 16 + unat c mod 16) = c"
    by (simp only: hex_digits_sum) simp
  then show ?thesis
    using d by (simp only: hex4_def hex_val_hex_digit mod_less_divisor zero_less_numeral
        prod.case option.case)
qed

lemma lex_string_UnicodeEscape:
  "lex_string (UnicodeEscape c @ cs) = map_option (\<lambda>(s, rest). (c # s, rest)) (lex_string cs)"
  by (simp add: UnicodeEscape_def hex4_UnicodeEscape)

lemma lex_string_quote_chars:
  "lex_string (quote_chars s @ 0x22 # rest) = Some (s, rest)"
proof (induction s rule: length_induct)
  case (1 s)
  show ?case
  proof (cases s)
    case Nil
    then show ?thesis by simp
  next
    case (Cons c cs)
    have IH: "lex_string (quote_chars ys @ 0x22 # rest) = Some (ys, rest)"
      if "length ys \<le> length cs" for ys
      using 1 that Cons by simp
    note tl = IH [of cs, simplified]
    consider
      (esc) "c = 0x08 \<or> c = 0x09 \<or> c = 0x0A \<or> c = 0x0C \<or> c = 0x0D \<or> c = 0x22 \<or> c = 0x5C"
      | (ctl) "\<not> (c = 0x08 \<or> c = 0x09 \<or> c = 0x0A \<or> c = 0x0C \<or> c = 0x0D \<or> c = 0x22 \<or> c = 0x5C)"
          "unat c < 0x20"
      | (pair) d ds where "\<not> unat c < 0x20" "is_high_surrogate c" "cs = d # ds" "is_low_surrogate d"
      | (lone) "\<not> unat c < 0x20" "is_high_surrogate c" "cs = [] \<or> \<not> is_low_surrogate (hd cs)"
      | (low) "\<not> unat c < 0x20" "\<not> is_high_surrogate c" "is_low_surrogate c"
      | (plain) "\<not> (c = 0x08 \<or> c = 0x09 \<or> c = 0x0A \<or> c = 0x0C \<or> c = 0x0D \<or> c = 0x22 \<or> c = 0x5C)"
          "\<not> unat c < 0x20" "\<not> is_high_surrogate c" "\<not> is_low_surrogate c"
      by (cases cs) auto
    then show ?thesis
    proof cases
      case esc
      then show ?thesis
        unfolding Cons
        by (elim disjE) (simp_all add: escape_char_def tl del: lex_string.simps
            add: lex_string_escape)
    next
      case ctl
      then have "quote_chars (c # cs) = UnicodeEscape c @ quote_chars cs"
        by simp
      then show ?thesis
        unfolding Cons by (simp add: lex_string_UnicodeEscape tl del: lex_string.simps)
    next
      case pair
      from pair(2) have c: "c \<noteq> 0x08" "c \<noteq> 0x09" "c \<noteq> 0x0A" "c \<noteq> 0x0C" "c \<noteq> 0x0D"
        "c \<noteq> 0x22" "c \<noteq> 0x5C"
        by (auto simp: is_high_surrogate_def)
      from pair(4) have d: "d \<noteq> 0x22" "d \<noteq> 0x5C" "\<not> unat d < 0x20"
        by (auto simp: is_low_surrogate_def)
      from pair c have q: "quote_chars (c # cs) = c # d # quote_chars ds"
        by simp
      have "lex_string (quote_chars ds @ 0x22 # rest) = Some (ds, rest)"
        by (rule IH) (simp add: pair(3))
      then show ?thesis
        unfolding Cons q using c d pair(1,3)
        by (simp add: lex_string_plain del: lex_string.simps)
    next
      case lone
      from lone(2) have c: "c \<noteq> 0x08" "c \<noteq> 0x09" "c \<noteq> 0x0A" "c \<noteq> 0x0C" "c \<noteq> 0x0D"
        "c \<noteq> 0x22" "c \<noteq> 0x5C"
        by (auto simp: is_high_surrogate_def)
      from lone c have "quote_chars (c # cs) = UnicodeEscape c @ quote_chars cs"
        by (cases cs) auto
      then show ?thesis
        unfolding Cons by (simp add: lex_string_UnicodeEscape tl del: lex_string.simps)
    next
      case low
      from low(3) have c: "c \<noteq> 0x08" "c \<noteq> 0x09" "c \<noteq> 0x0A" "c \<noteq> 0x0C" "c \<noteq> 0x0D"
        "c \<noteq> 0x22" "c \<noteq> 0x5C"
        by (auto simp: is_low_surrogate_def)
      from low c have "quote_chars (c # cs) = UnicodeEscape c @ quote_chars cs"
        by simp
      then show ?thesis
        unfolding Cons by (simp add: lex_string_UnicodeEscape tl del: lex_string.simps)
    next
      case plain
      then have "quote_chars (c # cs) = c # quote_chars cs"
        by simp
      then show ?thesis
        unfolding Cons using plain
        by (simp add: lex_string_plain tl del: lex_string.simps)
    qed
  qed
qed

subsection \<open>Integers are read back as they were printed\<close>

lemma unat_decimal_digit: "d < 10 \<Longrightarrow> unat (48 + word_of_nat d :: 16 word) = 48 + d"
  by (simp add: unat_48_plus)

lemma is_digit_decimal: "d < 10 \<Longrightarrow> is_digit (48 + word_of_nat d)"
  by (simp add: is_digit_def unat_decimal_digit)

lemma digit_val_decimal: "d < 10 \<Longrightarrow> digit_val (48 + word_of_nat d) = d"
  by (simp add: digit_val_def unat_decimal_digit)

lemma show_nat_digits: "c \<in> set (show_nat n) \<Longrightarrow> is_digit c"
proof (induction n arbitrary: c rule: show_nat.induct)
  case (1 n)
  show ?case
  proof (cases "n < 10")
    case True
    with "1.prems" show ?thesis
      by (subst (asm) show_nat.simps) (simp add: is_digit_decimal)
  next
    case False
    with "1.prems" have "c \<in> set (show_nat (n div 10)) \<or> c = 48 + word_of_nat (n mod 10)"
      by (subst (asm) show_nat.simps) auto
    with "1.IH" [OF False] show ?thesis
      by (auto simp: is_digit_decimal)
  qed
qed

lemma show_nat_nonempty: "show_nat n \<noteq> []"
  by (subst show_nat.simps) simp

lemma digits_val_snoc: "digits_val (ds @ [c]) = 10 * digits_val ds + digit_val c"
  by (simp add: digits_val_def)

lemma digits_val_show_nat: "digits_val (show_nat n) = n"
proof (induction n rule: show_nat.induct)
  case (1 n)
  show ?case
  proof (cases "n < 10")
    case True
    then show ?thesis
      by (subst show_nat.simps) (simp add: digits_val_def digit_val_decimal)
  next
    case False
    with "1.IH" show ?thesis
      by (subst show_nat.simps) (simp add: digits_val_snoc digit_val_decimal)
  qed
qed

lemma hd_show_nat: "0 < n \<Longrightarrow> hd (show_nat n) \<noteq> 0x30"
proof (induction n rule: show_nat.induct)
  case (1 n)
  show ?case
  proof (cases "n < 10")
    case True
    have "unat (48 + word_of_nat n :: 16 word) \<noteq> unat (0x30 :: 16 word)"
      using True "1.prems" by (simp add: unat_decimal_digit)
    then have "(48 + word_of_nat n :: 16 word) \<noteq> 0x30"
      by metis
    with True show ?thesis
      by (subst show_nat.simps) simp
  next
    case False
    then have "0 < n div 10"
      by simp
    with "1.IH" [OF False] show ?thesis
      using False by (subst show_nat.simps) (simp add: show_nat_nonempty)
  qed
qed

lemma show_nat_zero: "show_nat 0 = [0x30]"
  by (subst show_nat.simps) simp

lemma lex_int_show_nat:
  assumes "\<not> is_digit c"
  shows "lex_int (show_nat n @ c # r) = Some (show_nat n, c # r)"
proof -
  have t: "takeWhile is_digit (show_nat n @ c # r) = show_nat n"
    using assms by (simp add: takeWhile_append2 show_nat_digits)
  have d: "dropWhile is_digit (show_nat n @ c # r) = c # r"
    using assms by (simp add: dropWhile_append2 show_nat_digits)
  have z: "\<not> (hd (show_nat n) = 0x30 \<and> tl (show_nat n) \<noteq> [])"
  proof (cases "n = 0")
    case True
    then show ?thesis by (simp add: show_nat_zero)
  next
    case False
    then show ?thesis using hd_show_nat [of n] by simp
  qed
  show ?thesis
    using z by (auto simp: lex_int_def Let_def t d show_nat_nonempty)
qed

lemma lex_number_Number_toString:
  assumes "\<not> is_digit c" and "c \<noteq> 0x2E" and "c \<noteq> 0x65" and "c \<noteq> 0x45"
  shows "lex_number (Number_toString i @ c # r) = Some (of_int i, c # r)"
proof -
  have f: "lex_frac (c # r) = Some ([], c # r)"
    using assms by (simp add: lex_frac_def)
  have e: "lex_exp (c # r) = Some (0, c # r)"
    using assms by (simp add: lex_exp_def)
  show ?thesis
  proof (cases "i < 0")
    case True
    then have "lex_sign (Number_toString i @ c # r) = (True, show_nat (nat (- i)) @ c # r)"
      by (simp add: Number_toString_def lex_sign_def)
    moreover have "num_value True (show_nat (nat (- i))) [] 0 = of_int i"
      using True by (simp add: num_value_def digits_val_show_nat)
    ultimately show ?thesis
      by (simp add: lex_number_def lex_int_show_nat [OF assms(1)] f e)
  next
    case False
    have "hd (show_nat (nat i)) \<noteq> 0x2D"
    proof -
      have "is_digit (hd (show_nat (nat i)))"
        by (rule show_nat_digits [of _ "nat i"]) (simp add: show_nat_nonempty)
      then show ?thesis
        by (auto simp: is_digit_def)
    qed
    then have "lex_sign (Number_toString i @ c # r) = (False, show_nat (nat i) @ c # r)"
      using False show_nat_nonempty [of "nat i"]
      by (cases "show_nat (nat i)") (simp_all add: Number_toString_def lex_sign_def)
    moreover have "num_value False (show_nat (nat i)) [] 0 = of_int i"
      using False by (simp add: num_value_def digits_val_show_nat)
    ultimately show ?thesis
      by (simp add: lex_number_def lex_int_show_nat [OF assms(1)] f e)
  qed
qed

subsection \<open>The tasks are read back as they were serialised\<close>

lemma next_token_not_ws:
  "next_token cs = Tok t r \<Longrightarrow> dropWhile is_ws cs = cs"
  by (cases cs) (auto simp: next_token_def is_ws_def is_digit_def split: if_splits)

lemma tokenise_step:
  "next_token cs = Tok t r \<Longrightarrow> tokenise cs = map_option (Cons t) (tokenise r)"
  by (subst tokenise.simps) (simp add: next_token_not_ws)

lemma tokenise_Nil: "tokenise [] = Some []"
  by (subst tokenise.simps) (simp add: next_token_def)

lemma feed_step:
  assumes "next_token cs = Tok t r"
  shows "feed st cs = (case step t st of None \<Rightarrow> None | Some st' \<Rightarrow> feed st' r)"
  by (cases "tokenise r")
    (simp_all add: feed_def tokenise_step [OF assms] split: option.splits)

lemma feed_Nil: "feed st [] = Some st"
  by (simp add: feed_def tokenise_Nil)

lemma next_token_punctuation:
  "next_token (0x5B # r) = Tok LBrack r"
  "next_token (0x5D # r) = Tok RBrack r"
  "next_token (0x7B # r) = Tok LBrace r"
  "next_token (0x7D # r) = Tok RBrace r"
  "next_token (0x3A # r) = Tok Colon r"
  "next_token (0x2C # r) = Tok Comma r"
  by (simp_all add: next_token_def)

lemma next_token_QuoteJSONString:
  "next_token (QuoteJSONString s @ r) = Tok (TStr s) r"
  by (simp add: next_token_def QuoteJSONString_def lex_string_quote_chars
      del: lex_string.simps)

lemma next_token_literal:
  "next_token (js ''true'' @ r) = Tok (TLit (JBool True)) r"
  "next_token (js ''false'' @ r) = Tok (TLit (JBool False)) r"
  by (simp_all add: next_token_def js_def)

lemma next_token_Number_toString:
  "next_token (Number_toString i @ 0x2C # r) = Tok (TNum (of_int i)) (0x2C # r)"
proof -
  have n: "lex_number (Number_toString i @ 0x2C # r) = Some (of_int i, 0x2C # r)"
    by (rule lex_number_Number_toString) (simp_all add: is_digit_def)
  obtain h t where ht: "Number_toString i = h # t" and h: "h = 0x2D \<or> is_digit h"
  proof (cases "i < 0")
    case True
    then show ?thesis
      using that by (simp add: Number_toString_def)
  next
    case False
    obtain h t where "show_nat (nat i) = h # t"
      using show_nat_nonempty [of "nat i"] by (cases "show_nat (nat i)") auto
    moreover from this have "is_digit h"
      using show_nat_digits [of h "nat i"] by simp
    ultimately show ?thesis
      using that False by (simp add: Number_toString_def)
  qed
  from h have "h \<noteq> 0x5B" "h \<noteq> 0x5D" "h \<noteq> 0x7B" "h \<noteq> 0x7D" "h \<noteq> 0x3A" "h \<noteq> 0x2C"
    "h \<noteq> 0x22" "h \<noteq> 0x74" "h \<noteq> 0x66" "h \<noteq> 0x6E"
    by (auto simp: is_digit_def)
  with h n show ?thesis
    unfolding ht by (simp add: next_token_def)
qed

lemmas feed_simps =
  next_token_punctuation [THEN feed_step]
  next_token_QuoteJSONString [THEN feed_step]
  next_token_literal [THEN feed_step]
  next_token_Number_toString [THEN feed_step]

lemma keys_distinct:
  "js ''id'' \<noteq> js ''name''" "js ''id'' \<noteq> js ''isRGA''" "js ''name'' \<noteq> js ''isRGA''"
  by (simp_all add: js_def)

lemma feed_stringify_Task:
  assumes "m = Val \<or> m = ValOrEnd"
  shows "feed (PS (Arr items # st) m) (stringify_Task t @ r)
    = feed (PS (Arr (items @ [Task_object t]) # st) SepOrEnd) r"
  using assms
  by (cases "isRGA t")
    (auto simp: stringify_Task_def Task_object_def feed_simps keys_distinct)

lemma feed_join_comma:
  assumes "ts \<noteq> []" and "m = Val \<or> m = ValOrEnd"
  shows "feed (PS (Arr items # st) m) (join_comma (map stringify_Task ts) @ 0x5D # r)
    = feed (PS (Arr (items @ map Task_object ts) # st) SepOrEnd) (0x5D # r)"
  using assms
proof (induction ts arbitrary: items m)
  case Nil
  then show ?case by simp
next
  case (Cons t ts)
  show ?case
  proof (cases ts)
    case Nil
    with Cons.prems show ?thesis
      by (simp add: feed_stringify_Task)
  next
    case (Cons u us)
    have "feed (PS (Arr items # st) m) (join_comma (map stringify_Task (t # ts)) @ 0x5D # r)
      = feed (PS (Arr (items @ [Task_object t]) # st) SepOrEnd)
          (0x2C # join_comma (map stringify_Task ts) @ 0x5D # r)"
      using Cons.prems(2) by (simp add: Cons feed_stringify_Task)
    also have "\<dots> = feed (PS (Arr (items @ [Task_object t]) # st) Val)
          (join_comma (map stringify_Task ts) @ 0x5D # r)"
      by (simp add: feed_simps)
    also have "\<dots> = feed (PS (Arr ((items @ [Task_object t]) @ map Task_object ts) # st) SepOrEnd)
          (0x5D # r)"
      by (rule Cons.IH) (simp_all add: Cons)
    finally show ?thesis
      by simp
  qed
qed

lemma JSON_parse_JSON_stringify:
  "JSON_parse (JSON_stringify ts) = Inr (JArr (map Task_object ts))"
proof -
  have "feed (PS [] Val) (JSON_stringify ts) = Some (Done (JArr (map Task_object ts)))"
  proof (cases "ts = []")
    case True
    then show ?thesis
      by (simp add: JSON_stringify_def feed_simps feed_Nil)
  next
    case False
    have "feed (PS [] Val) (JSON_stringify ts)
      = feed (PS [Arr []] ValOrEnd) (join_comma (map stringify_Task ts) @ 0x5D # [])"
      by (simp add: JSON_stringify_def feed_simps)
    also have "\<dots> = feed (PS [Arr ([] @ map Task_object ts)] SepOrEnd) (0x5D # [])"
      using False by (rule feed_join_comma) simp
    finally show ?thesis
      by (simp add: feed_simps feed_Nil)
  qed
  then show ?thesis
    by (auto simp: JSON_parse_def feed_def split: option.splits)
qed

lemma JSON_stringify_truthy: "JSON_stringify ts \<noteq> []"
  by (simp add: JSON_stringify_def)

lemma JSON_parse_empty: "JSON_parse [] = Inl SyntaxError"
  by (simp add: JSON_parse_def tokenise_Nil)

lemma loadTasks_default_cases:
  "\<not> window_defined e \<Longrightarrow> loadTasks e = Inr (map Task_object createDefaultTasks)"
  "storage_denied e \<Longrightarrow> loadTasks e = Inr (map Task_object createDefaultTasks)"
  "store e STORAGE_KEY = None \<Longrightarrow> loadTasks e = Inr (map Task_object createDefaultTasks)"
  "store e STORAGE_KEY = Some [] \<Longrightarrow> loadTasks e = Inr (map Task_object createDefaultTasks)"
  "store e STORAGE_KEY = Some raw \<Longrightarrow> JSON_parse raw = Inl x \<Longrightarrow>
     loadTasks e = Inr (map Task_object createDefaultTasks)"
  "store e STORAGE_KEY = Some raw \<Longrightarrow> JSON_parse raw = Inr v \<Longrightarrow>
     \<not> (Array_isArray v \<and> length (elements v) = 6) \<Longrightarrow>
     loadTasks e = Inr (map Task_object createDefaultTasks)"
  by (auto simp: loadTasks_def loadTasks_try_def localStorage_getItem_def
      split: sum.splits option.splits)

lemma loadTasks_stored_array:
  assumes "window_defined e" and "\<not> storage_denied e"
    and "store e STORAGE_KEY = Some raw" and "JSON_parse raw = Inr (JArr xs)"
    and "length xs = 6"
  shows "loadTasks e = Inr xs"
proof -
  from assms(4) have "raw \<noteq> []"
    using JSON_parse_empty by auto
  with assms show ?thesis
    by (simp add: loadTasks_def loadTasks_try_def localStorage_getItem_def)
qed

lemma loadTasks_returns: "loadTasks e \<noteq> Inl x"
  by (simp add: loadTasks_def split: sum.splits option.splits)

subsection \<open>Loading\<close>

text \<open>
  Claim C2, as amended. A stored value that is absent, that is not JSON, or that is not
  an array of exactly six elements is discarded, and the load returns the six default
  tasks: ids 1 to 6, empty names, flags false. A stored JSON array of exactly six elements
  is returned as it was parsed, whatever its elements are.
\<close>

theorem loadTasks_checks_length_only:
  "(store e STORAGE_KEY = None \<longrightarrow> loadTasks e = Inr (map Task_object createDefaultTasks))
   \<and> (store e STORAGE_KEY = Some raw \<and> JSON_parse raw = Inl x \<longrightarrow>
        loadTasks e = Inr (map Task_object createDefaultTasks))
   \<and> (store e STORAGE_KEY = Some raw \<and> JSON_parse raw = Inr v
        \<and> \<not> (Array_isArray v \<and> length (elements v) = 6) \<longrightarrow>
        loadTasks e = Inr (map Task_object createDefaultTasks))
   \<and> (window_defined e \<and> \<not> storage_denied e \<and> store e STORAGE_KEY = Some raw
        \<and> JSON_parse raw = Inr (JArr xs) \<and> length xs = 6 \<longrightarrow>
        loadTasks e = Inr xs)
   \<and> map Task_object createDefaultTasks
       = map (\<lambda>i. JObj [(js ''id'', JNum (of_int i)), (js ''name'', JStr []),
                         (js ''isRGA'', JBool False)]) [1, 2, 3, 4, 5, 6]"
  using loadTasks_default_cases(3,5,6) [of e] loadTasks_stored_array [of e raw xs]
  by (auto simp: createDefaultTasks_unfold Task_object_def)

theorem loadTasks_checks_length_only_witness:
  "loadTasks \<lparr>window_defined = True, storage_denied = False, store = Map.empty\<rparr>
     = Inr (map Task_object createDefaultTasks)
   \<and> loadTasks \<lparr>window_defined = True, storage_denied = False,
        store = [STORAGE_KEY \<mapsto> js ''[1,2,3,4,5,6''] \<rparr>
     = Inr (map Task_object createDefaultTasks)
   \<and> loadTasks \<lparr>window_defined = True, storage_denied = False,
        store = [STORAGE_KEY \<mapsto> js ''[1,2,3,4,5,6,7]''] \<rparr>
     = Inr (map Task_object createDefaultTasks)
   \<and> loadTasks \<lparr>window_defined = True, storage_denied = False,
        store = [STORAGE_KEY \<mapsto> js ''[true,[],{},null,-2.5e1,6]''] \<rparr>
     = Inr [JBool True, JArr [], JObj [], JNull, JNum (- 25), JNum 6]"
proof -
  have a: "JSON_parse (js ''[1,2,3,4,5,6'') = Inl SyntaxError"
    by code_simp
  have b: "JSON_parse (js ''[1,2,3,4,5,6,7]'')
      = Inr (JArr [JNum 1, JNum 2, JNum 3, JNum 4, JNum 5, JNum 6, JNum 7])"
    by code_simp
  have c: "JSON_parse (js ''[true,[],{},null,-2.5e1,6]'')
      = Inr (JArr [JBool True, JArr [], JObj [], JNull, JNum (- 25), JNum 6])"
    by code_simp
  from a b c
    loadTasks_checks_length_only
      [of "\<lparr>window_defined = True, storage_denied = False, store = Map.empty\<rparr>"]
    loadTasks_checks_length_only
      [of "\<lparr>window_defined = True, storage_denied = False,
            store = [STORAGE_KEY \<mapsto> js ''[1,2,3,4,5,6''] \<rparr>"
        "js ''[1,2,3,4,5,6''" SyntaxError]
    loadTasks_checks_length_only
      [of "\<lparr>window_defined = True, storage_denied = False,
            store = [STORAGE_KEY \<mapsto> js ''[1,2,3,4,5,6,7]''] \<rparr>"
        "js ''[1,2,3,4,5,6,7]''" _
        "JArr [JNum 1, JNum 2, JNum 3, JNum 4, JNum 5, JNum 6, JNum 7]"]
    loadTasks_checks_length_only
      [of "\<lparr>window_defined = True, storage_denied = False,
            store = [STORAGE_KEY \<mapsto> js ''[true,[],{},null,-2.5e1,6]''] \<rparr>"
        "js ''[true,[],{},null,-2.5e1,6]''" _ _
        "[JBool True, JArr [], JObj [], JNull, JNum (- 25), JNum 6]"]
  show ?thesis
    by simp
qed

text \<open>
  The claim as written fails: the stored text \<^verbatim>\<open>[1,2,3,4,5,6]\<close> is a JSON array of six
  elements, none of them a task, and the load returns these six numbers, not the six
  default tasks.
\<close>

theorem loadTasks_checks_length_only_counterexample:
  "loadTasks \<lparr>window_defined = True, storage_denied = False,
      store = [STORAGE_KEY \<mapsto> js ''[1,2,3,4,5,6]''] \<rparr>
     = Inr [JNum 1, JNum 2, JNum 3, JNum 4, JNum 5, JNum 6]
   \<and> loadTasks \<lparr>window_defined = True, storage_denied = False,
      store = [STORAGE_KEY \<mapsto> js ''[1,2,3,4,5,6]''] \<rparr>
     \<noteq> Inr (map Task_object createDefaultTasks)"
proof -
  have p: "JSON_parse (js ''[1,2,3,4,5,6]'')
      = Inr (JArr [JNum 1, JNum 2, JNum 3, JNum 4, JNum 5, JNum 6])"
    by code_simp
  have n: "js ''[1,2,3,4,5,6]'' \<noteq> []"
    by (simp add: js_def)
  show ?thesis
    by (simp add: loadTasks_def loadTasks_try_def localStorage_getItem_def p n
        createDefaultTasks_unfold Task_object_def)
qed

text \<open>
  Claim C3. The load never hands an exception to its caller. It yields the six default
  tasks (ids 1 to 6, empty names, flags false) when there is no window, when reading the
  storage throws, when nothing or the empty string is stored, when the stored text is not
  JSON, when it is JSON but not an array, and when it is an array of another length than 6.
\<close>

theorem loadTasks_falls_back:
  "(\<forall>x. loadTasks e \<noteq> Inl x)
   \<and> (\<not> window_defined e \<longrightarrow> loadTasks e = Inr (map Task_object createDefaultTasks))
   \<and> (storage_denied e \<longrightarrow> loadTasks e = Inr (map Task_object createDefaultTasks))
   \<and> (store e STORAGE_KEY = None \<longrightarrow> loadTasks e = Inr (map Task_object createDefaultTasks))
   \<and> (store e STORAGE_KEY = Some [] \<longrightarrow> loadTasks e = Inr (map Task_object createDefaultTasks))
   \<and> (store e STORAGE_KEY = Some raw \<and> JSON_parse raw = Inl SyntaxError \<longrightarrow>
        loadTasks e = Inr (map Task_object createDefaultTasks))
   \<and> (store e STORAGE_KEY = Some raw \<and> JSON_parse raw = Inr v \<and> \<not> Array_isArray v \<longrightarrow>
        loadTasks e = Inr (map Task_object createDefaultTasks))
   \<and> (store e STORAGE_KEY = Some raw \<and> JSON_parse raw = Inr (JArr xs) \<and> length xs \<noteq> 6 \<longrightarrow>
        loadTasks e = Inr (map Task_object createDefaultTasks))
   \<and> map id_task createDefaultTasks = [1, 2, 3, 4, 5, 6]
   \<and> map name createDefaultTasks = replicate 6 []
   \<and> map isRGA createDefaultTasks = replicate 6 False"
proof -
  have "map id_task createDefaultTasks = [1, 2, 3, 4, 5, 6]"
    "map name createDefaultTasks = replicate 6 []"
    "map isRGA createDefaultTasks = replicate 6 False"
    by (simp_all add: createDefaultTasks_unfold numeral_eq_Suc)
  moreover have "store e STORAGE_KEY = Some raw \<and> JSON_parse raw = Inr (JArr xs)
      \<and> length xs \<noteq> 6 \<longrightarrow> loadTasks e = Inr (map Task_object createDefaultTasks)"
    using loadTasks_default_cases(6) [of e raw "JArr xs"] by simp
  moreover have "store e STORAGE_KEY = Some raw \<and> JSON_parse raw = Inr v
      \<and> \<not> Array_isArray v \<longrightarrow> loadTasks e = Inr (map Task_object createDefaultTasks)"
    using loadTasks_default_cases(6) [of e raw v] by simp
  ultimately show ?thesis
    using loadTasks_returns [of e] loadTasks_default_cases(1,2,3,4) [of e]
      loadTasks_default_cases(5) [of e raw SyntaxError]
    by blast
qed

theorem loadTasks_falls_back_witness:
  "loadTasks \<lparr>window_defined = False, storage_denied = False,
       store = [STORAGE_KEY \<mapsto> JSON_stringify createDefaultTasks]\<rparr>
     = Inr (map Task_object createDefaultTasks)
   \<and> loadTasks \<lparr>window_defined = True, storage_denied = True, store = Map.empty\<rparr>
     = Inr (map Task_object createDefaultTasks)
   \<and> loadTasks \<lparr>window_defined = True, storage_denied = False, store = Map.empty\<rparr>
     = Inr (map Task_object createDefaultTasks)
   \<and> loadTasks \<lparr>window_defined = True, storage_denied = False,
       store = [STORAGE_KEY \<mapsto> js ''not json'']\<rparr>
     = Inr (map Task_object createDefaultTasks)
   \<and> loadTasks \<lparr>window_defined = True, storage_denied = False,
       store = [STORAGE_KEY \<mapsto> js ''{}'']\<rparr>
     = Inr (map Task_object createDefaultTasks)
   \<and> loadTasks \<lparr>window_defined = True, storage_denied = False,
       store = [STORAGE_KEY \<mapsto> js ''[1, 2, 3]'']\<rparr>
     = Inr (map Task_object createDefaultTasks)"
proof -
  have a: "JSON_parse (js ''not json'') = Inl SyntaxError"
    by code_simp
  have b: "JSON_parse (js ''{}'') = Inr (JObj [])"
    by code_simp
  have c: "JSON_parse (js ''[1, 2, 3]'') = Inr (JArr [JNum 1, JNum 2, JNum 3])"
    by code_simp
  from a b c
    loadTasks_falls_back
      [of "\<lparr>window_defined = False, storage_denied = False,
            store = [STORAGE_KEY \<mapsto> JSON_stringify createDefaultTasks]\<rparr>"]
    loadTasks_falls_back
      [of "\<lparr>window_defined = True, storage_denied = True, store = Map.empty\<rparr>"]
    loadTasks_falls_back
      [of "\<lparr>window_defined = True, storage_denied = False, store = Map.empty\<rparr>"]
    loadTasks_falls_back
      [of "\<lparr>window_defined = True, storage_denied = False,
            store = [STORAGE_KEY \<mapsto> js ''not json'']\<rparr>" "js ''not json''"]
    loadTasks_falls_back
      [of "\<lparr>window_defined = True, storage_denied = False,
            store = [STORAGE_KEY \<mapsto> js ''{}'']\<rparr>" "js ''{}''" "JObj []"]
    loadTasks_falls_back
      [of "\<lparr>window_defined = True, storage_denied = False,
            store = [STORAGE_KEY \<mapsto> js ''[1, 2, 3]'']\<rparr>" "js ''[1, 2, 3]''" _
        "[JNum 1, JNum 2, JNum 3]"]
  show ?thesis
    by simp
qed

subsection \<open>Persisting and loading again\<close>

text \<open>
  Claim C7. For a collection with the ids 1 to 6 in ascending order, any names and any
  flags: once the page is hydrated, the persist effect stores the serialised collection
  under the storage key, and a load from that storage returns the objects of exactly
  these tasks; two tasks with the same object are the same task.
\<close>

theorem persist_then_loadTasks:
  assumes "hydrated s" and "window_defined e" and "\<not> storage_denied e"
    and "map id_task (tasks s) = [1, 2, 3, 4, 5, 6]"
  shows "persist s e = Inr (e\<lparr>store := (store e)(STORAGE_KEY \<mapsto> JSON_stringify (tasks s))\<rparr>)
    \<and> loadTasks (e\<lparr>store := (store e)(STORAGE_KEY \<mapsto> JSON_stringify (tasks s))\<rparr>)
        = Inr (map Task_object (tasks s))
    \<and> inj Task_object"
proof -
  have len: "length (tasks s) = 6"
    using arg_cong [OF assms(4), of length] by simp
  have "persist s e = Inr (e\<lparr>store := (store e)(STORAGE_KEY \<mapsto> JSON_stringify (tasks s))\<rparr>)"
    using assms(1,3) by (simp add: persist_def localStorage_setItem_def)
  moreover have "loadTasks (e\<lparr>store := (store e)(STORAGE_KEY \<mapsto> JSON_stringify (tasks s))\<rparr>)
      = Inr (map Task_object (tasks s))"
    by (rule loadTasks_stored_array [where raw = "JSON_stringify (tasks s)"])
      (simp_all add: assms(2,3) JSON_parse_JSON_stringify len)
  moreover have "inj Task_object"
    by (rule injI) (simp add: Task_object_def)
  ultimately show ?thesis
    by simp
qed

theorem persist_then_loadTasks_witness:
  "hydrated (handleNameChange 3 (js ''Write report'') (toggleRGA 5 (Home_initial\<lparr>hydrated := True\<rparr>)))
   \<and> map id_task (tasks (handleNameChange 3 (js ''Write report'')
        (toggleRGA 5 (Home_initial\<lparr>hydrated := True\<rparr>)))) = [1, 2, 3, 4, 5, 6]
   \<and> loadTasks (\<lparr>window_defined = True, storage_denied = False, store = Map.empty\<rparr>
        \<lparr>store := Map.empty(STORAGE_KEY \<mapsto>
           JSON_stringify (tasks (handleNameChange 3 (js ''Write report'')
             (toggleRGA 5 (Home_initial\<lparr>hydrated := True\<rparr>)))))\<rparr>)
       = Inr (map Task_object (tasks (handleNameChange 3 (js ''Write report'')
           (toggleRGA 5 (Home_initial\<lparr>hydrated := True\<rparr>)))))"
proof -
  have h: "hydrated (handleNameChange 3 (js ''Write report'')
      (toggleRGA 5 (Home_initial\<lparr>hydrated := True\<rparr>)))"
    by (simp add: handleNameChange_def toggleRGA_def)
  have i: "map id_task (tasks (handleNameChange 3 (js ''Write report'')
      (toggleRGA 5 (Home_initial\<lparr>hydrated := True\<rparr>)))) = [1, 2, 3, 4, 5, 6]"
    by (simp add: handleNameChange_def toggleRGA_def Home_initial_def
        createDefaultTasks_unfold)
  have w: "window_defined \<lparr>window_defined = True, storage_denied = False, store = Map.empty\<rparr>"
    and d: "\<not> storage_denied \<lparr>window_defined = True, storage_denied = False, store = Map.empty\<rparr>"
    by simp_all
  from h i persist_then_loadTasks [OF h w d i] show ?thesis
    by simp
qed


end
